theory Spec2Isabelle
  imports Main "HOL-Library.Sublist"
begin

section \<open>Values\<close>

text \<open>
  Request data (the contents of \<open>req.params\<close>, \<open>req.query\<close>, \<open>req.body\<close>) are plain
  JavaScript values. An object is the list of its own properties.
\<close>

datatype jsval =
    Undefined
  | Null
  | JBool bool
  | JNum int
  | JStr string
  | JObj "(string \<times> jsval) list"

text \<open>
  \<^verbatim>\<open>lhs ?? rhs\<close>, compiled to \<^verbatim>\<open>_nullishCoalesce(lhs, rhsFn)\<close>: the test is
  \<^verbatim>\<open>lhs != null\<close>, which is false for both \<open>undefined\<close> and \<open>null\<close>.
\<close>

definition nullishCoalesce :: "jsval \<Rightarrow> jsval \<Rightarrow> jsval" where
  "nullishCoalesce lhs rhs = (if lhs \<noteq> Undefined \<and> lhs \<noteq> Null then lhs else rhs)"

text \<open>An issue of the validation library: opaque to the middleware, passed through.\<close>

datatype issue = Issue (code: string) (path: "string list") (message: string)

text \<open>
  What \<open>safeParseAsync\<close> resolves to: \<^verbatim>\<open>{success: true, data}\<close> or
  \<^verbatim>\<open>{success: false, error: {issues}}\<close>.
\<close>

datatype parsed = Success jsval | Failure "issue list"

text \<open>
  What can leave the request handler as an exception: the \<open>ZodError\<close> it constructs itself,
  a \<open>TypeError\<close> of the language (calling what is not a function, assigning to an accessor
  that has no setter in strict mode), or any other value (a validator may throw anything,
  these included).
\<close>

datatype thrown = ZodError "issue list" | TypeError | Exception jsval

text \<open>
  An attempt-parse function. It may have side effects, so it reads and returns a world
  \<open>'w\<close>; it either throws (\<open>Inl\<close>, also a rejected promise) or resolves to a result
  (\<open>Inr\<close>). The call is awaited, so it is one atomic step of the handler.
\<close>

type_synonym 'w safeParseAsync = "jsval \<Rightarrow> 'w \<Rightarrow> (thrown + parsed) \<times> 'w"

section \<open>Schemas\<close>

text \<open>
  A value found in a schema set: \<open>undefined\<close> (the entry is absent), \<open>null\<close>, a function,
  or an object with properties. A Zod type is an object with a \<open>safeParseAsync\<close> method;
  a raw shape is an object whose properties are Zod types.
\<close>

datatype 'w schema =
    SUndefined
  | SNull
  | SFunction "'w safeParseAsync"
  | SObject "(string \<times> 'w schema) list"

fun truthy :: "'w schema \<Rightarrow> bool" where
  "truthy SUndefined = False"
| "truthy SNull = False"
| "truthy (SFunction f) = True"
| "truthy (SObject ps) = True"

text \<open>\<^verbatim>\<open>schema[k]\<close> on a value that is not nullish; a missing property reads \<open>undefined\<close>.\<close>

fun member :: "'w schema \<Rightarrow> string \<Rightarrow> 'w schema" where
  "member (SObject ps) k = (case map_of ps k of None \<Rightarrow> SUndefined | Some v \<Rightarrow> v)"
| "member s k = SUndefined"

fun typeof_function :: "'w schema \<Rightarrow> bool" where
  "typeof_function (SFunction f) = True"
| "typeof_function s = False"

text \<open>\<^verbatim>\<open>return !!schema && typeof schema.safeParseAsync === "function";\<close>\<close>

definition isZodType :: "'w schema \<Rightarrow> bool" where
  "isZodType schema = (truthy schema \<and> typeof_function (member schema ''safeParseAsync''))"

text \<open>\<^verbatim>\<open>schemas.params ?? {}\<close> on schema values.\<close>

fun orEmpty :: "'w schema \<Rightarrow> 'w schema" where
  "orEmpty SUndefined = SObject []"
| "orEmpty SNull = SObject []"
| "orEmpty s = s"

text \<open>
  \<^verbatim>\<open>var types = ["query", "params", "body"];\<close> The declaration file gives the type
  \<^verbatim>\<open>DataType = (typeof types)[number]\<close>.
\<close>

datatype DataType = Query | Params | Body

definition types :: "DataType list" where
  "types = [Query, Params, Body]"

fun name :: "DataType \<Rightarrow> string" where
  "name Query = ''query''"
| "name Params = ''params''"
| "name Body = ''body''"

text \<open>
  An object with the three keys \<open>params\<close>, \<open>query\<close>, \<open>body\<close>: the schema set given to
  \<open>validate\<close> (an absent key reads \<open>SUndefined\<close>), and the \<open>validation\<close> object it builds.
\<close>

record 'a by_type =
  params :: 'a
  query :: 'a
  body :: 'a

fun sel :: "'a by_type \<Rightarrow> DataType \<Rightarrow> 'a" where
  "sel r Query = query r"
| "sel r Params = params r"
| "sel r Body = body r"

text \<open>
  \<^verbatim>\<open>isZodType(schemas.params) ? schemas.params : z.strictObject(schemas.params ?? {})\<close>
  and the same for \<open>query\<close> and \<open>body\<close>. \<open>z.strictObject\<close> belongs to the validation
  library, not to this repository: it is the parameter \<open>strictObject\<close>.
\<close>

definition validation :: "('w schema \<Rightarrow> 'w schema) \<Rightarrow> 'w schema by_type \<Rightarrow> 'w schema by_type" where
  "validation strictObject schemas =
     \<lparr> params = (if isZodType (params schemas) then params schemas
                 else strictObject (orEmpty (params schemas))),
       query = (if isZodType (query schemas) then query schemas
                else strictObject (orEmpty (query schemas))),
       body = (if isZodType (body schemas) then body schemas
               else strictObject (orEmpty (body schemas))) \<rparr>"

text \<open>
  \<^verbatim>\<open>await v.safeParseAsync(x)\<close>: a \<open>TypeError\<close> when the property is not a function,
  otherwise the call; what the function throws is thrown on.
\<close>

definition safeParseAsync :: "'w schema \<Rightarrow> jsval \<Rightarrow> 'w \<Rightarrow> (thrown + parsed) \<times> 'w" where
  "safeParseAsync v x w =
     (case member v ''safeParseAsync'' of
        SFunction f \<Rightarrow> f x w
      | _ \<Rightarrow> (Inl TypeError, w))"

section \<open>The request object and its \<open>query\<close> property\<close>

text \<open>
  A request is the map of its own properties; \<open>Some Undefined\<close> is an own property whose
  value is \<open>undefined\<close>. Of the prototype \<open>express.request\<close> only the property \<open>query\<close>
  matters: its descriptor, when there is one, with the optional \<open>get\<close> and \<open>set\<close>
  functions (\<open>this\<close> is their first argument). The prototype defines none of \<open>params\<close>,
  \<open>body\<close> and \<open>_query\<close>, and own properties are writable.
\<close>

type_synonym request = "string \<rightharpoonup> jsval"

datatype descriptor =
  Descriptor (get_acc: "(request \<Rightarrow> jsval) option")
             (set_acc: "(request \<Rightarrow> jsval \<Rightarrow> request) option")

text \<open>
  \<^verbatim>\<open>get() { if (Object.hasOwn(this, "_query")) return this._query;
          return descriptor?.get?.call(this); }\<close>
\<close>

definition patched_get :: "descriptor \<Rightarrow> request \<Rightarrow> jsval" where
  "patched_get descriptor this =
     (case this ''_query'' of
        Some v \<Rightarrow> v
      | None \<Rightarrow> (case get_acc descriptor of None \<Rightarrow> Undefined | Some g \<Rightarrow> g this))"

text \<open>\<^verbatim>\<open>set(query) { this._query = query; }\<close>\<close>

definition patched_set :: "request \<Rightarrow> jsval \<Rightarrow> request" where
  "patched_set this q = this(''_query'' \<mapsto> q)"

text \<open>
  Module load: \<^verbatim>\<open>var descriptor = Object.getOwnPropertyDescriptor(express.request, "query");
  if (descriptor) { Object.defineProperty(express.request, "query", {get, set, ...}); }\<close>
  The result is the descriptor of \<open>query\<close> on the prototype from then on.
\<close>

definition install :: "descriptor option \<Rightarrow> descriptor option" where
  "install descriptor =
     (case descriptor of
        None \<Rightarrow> None
      | Some d \<Rightarrow> Some (Descriptor (Some (patched_get d)) (Some patched_set)))"

text \<open>
  \<^verbatim>\<open>req[k]\<close>: an own property wins; otherwise the prototype's accessor for \<open>query\<close>,
  otherwise \<open>undefined\<close>.
\<close>

definition js_get :: "descriptor option \<Rightarrow> request \<Rightarrow> string \<Rightarrow> jsval" where
  "js_get proto req k =
     (case req k of
        Some v \<Rightarrow> v
      | None \<Rightarrow>
          (if k = ''query'' then
             (case proto of
                None \<Rightarrow> Undefined
              | Some d \<Rightarrow> (case get_acc d of None \<Rightarrow> Undefined | Some g \<Rightarrow> g req))
           else Undefined))"

text \<open>
  \<^verbatim>\<open>req[k] = v\<close> in strict mode: an own property is overwritten; an inherited accessor's
  setter is called, and the assignment throws when the accessor has no setter; otherwise
  an own property is created.
\<close>

definition js_set :: "descriptor option \<Rightarrow> request \<Rightarrow> string \<Rightarrow> jsval \<Rightarrow> thrown + request" where
  "js_set proto req k v =
     (case req k of
        Some old \<Rightarrow> Inr (req(k \<mapsto> v))
      | None \<Rightarrow>
          (if k = ''query'' then
             (case proto of
                None \<Rightarrow> Inr (req(k \<mapsto> v))
              | Some d \<Rightarrow> (case set_acc d of None \<Rightarrow> Inl TypeError | Some s \<Rightarrow> Inr (s req v)))
           else Inr (req(k \<mapsto> v))))"

section \<open>The request handler\<close>

text \<open>
  The body of the \<open>for\<close> loop, for the types still to come:
  \<^verbatim>\<open>const parsed = await validation[type].safeParseAsync(req[type] ?? {});
  if (parsed.success) req[type] = parsed.data;
  else { issues.push(...parsed.error.issues); }\<close>
  \<open>V\<close> is the \<open>validation\<close> object of the enclosing call of \<open>validate\<close>. The state
  is the request, the \<open>issues\<close> array and the world. The first component of
  the result is the exception that ended the loop, if any.
\<close>

fun loop :: "descriptor option \<Rightarrow> 'w schema by_type \<Rightarrow> DataType list \<Rightarrow>
    request \<Rightarrow> issue list \<Rightarrow> 'w \<Rightarrow> thrown option \<times> request \<times> issue list \<times> 'w" where
  "loop proto V [] req issues w = (None, req, issues, w)"
| "loop proto V (type # rest) req issues w =
     (case safeParseAsync (sel V type)
             (nullishCoalesce (js_get proto req (name type)) (JObj [])) w of
        (Inl e, w') \<Rightarrow> (Some e, req, issues, w')
      | (Inr (Success data), w') \<Rightarrow>
          (case js_set proto req (name type) data of
             Inl e \<Rightarrow> (Some e, req, issues, w')
           | Inr req' \<Rightarrow> loop proto V rest req' issues w')
      | (Inr (Failure parsed_issues), w') \<Rightarrow>
          loop proto V rest req (issues @ parsed_issues) w')"

text \<open>
  How a call of the handler ends: with an exception, or with the call \<open>next(...)\<close> of the
  proceed callback on the given arguments.
\<close>

datatype completion = Throw thrown | Next "jsval list"

text \<open>
  \<^verbatim>\<open>const issues = []; for (const type of types) {...}
  if (issues.length > 0) { throw new ZodError(issues); }
  return next();\<close>
  The result is the completion, the request as the handler leaves it, and the world.
\<close>

definition handler :: "descriptor option \<Rightarrow> 'w schema by_type \<Rightarrow> request \<Rightarrow> 'w \<Rightarrow>
    completion \<times> request \<times> 'w" where
  "handler proto V req w =
     (case loop proto V types req [] w of
        (Some e, req', issues, w') \<Rightarrow> (Throw e, req', w')
      | (None, req', issues, w') \<Rightarrow>
          (if length issues > 0 then (Throw (ZodError issues), req', w')
           else (Next [], req', w')))"

text \<open>
  \<open>validate(schemas)\<close>, in a module loaded where \<open>express.request\<close> had the given
  descriptor for \<open>query\<close>: the handler closes over \<open>validation\<close>, and property access on
  the request goes through the prototype as the module left it.
\<close>

definition validate :: "('w schema \<Rightarrow> 'w schema) \<Rightarrow> descriptor option \<Rightarrow> 'w schema by_type \<Rightarrow>
    request \<Rightarrow> 'w \<Rightarrow> completion \<times> request \<times> 'w" where
  "validate strictObject descriptor schemas =
     handler (install descriptor) (validation strictObject schemas)"

section \<open>The loop body on the patched prototype\<close>

text \<open>
  The value the handler reads from the request for a category and passes to the validator,
  with the prototype as the module leaves it.
\<close>

definition input :: "descriptor option \<Rightarrow> request \<Rightarrow> DataType \<Rightarrow> jsval" where
  "input d req t = nullishCoalesce (js_get (install d) req (name t)) (JObj [])"

text \<open>
  What the assignment \<^verbatim>\<open>req[type] = parsed.data\<close> does to the own properties then: it goes
  to the shadow slot when the patched setter is reached, to the property itself otherwise.
\<close>

definition commit :: "descriptor option \<Rightarrow> request \<Rightarrow> DataType \<Rightarrow> jsval \<Rightarrow> request" where
  "commit d req t v =
     (if req (name t) = None \<and> t = Query \<and> d \<noteq> None then req(''_query'' \<mapsto> v)
      else req(name t \<mapsto> v))"

fun settle :: "descriptor option \<Rightarrow> request \<Rightarrow> DataType \<Rightarrow> parsed \<Rightarrow> request" where
  "settle d req t (Success v) = commit d req t v"
| "settle d req t (Failure parsed_issues) = req"

text \<open>The request holds \<open>v\<close> for a category: in the property itself or in the shadow slot.\<close>

definition held :: "descriptor option \<Rightarrow> request \<Rightarrow> DataType \<Rightarrow> jsval \<Rightarrow> bool" where
  "held d req t v =
     (req (name t) = Some v \<or>
      (t = Query \<and> d \<noteq> None \<and> req ''query'' = None \<and> req ''_query'' = Some v))"

section \<open>Observing a run\<close>

text \<open>
  A Zod type seen from the handler is an object whose \<open>safeParseAsync\<close> is a function;
  nothing else of it is touched.
\<close>

definition zodType :: "'w safeParseAsync \<Rightarrow> 'w schema" where
  "zodType f = SObject [(''safeParseAsync'', SFunction f)]"

text \<open>
  To speak about the calls a run makes, a validator is wrapped so that, when its call
  completes, it appends the category, the input it was given and what it returned or
  threw to a list kept in the world. The wrapped function behaves as the original one.
\<close>

type_synonym call = "DataType \<times> jsval \<times> (thrown + parsed)"

definition spy :: "DataType \<Rightarrow> 'w safeParseAsync \<Rightarrow> ('w \<times> call list) safeParseAsync" where
  "spy t f x = (\<lambda>(w, calls). case f x w of (r, w') \<Rightarrow> (r, (w', calls @ [(t, x, r)])))"

definition spied :: "(DataType \<Rightarrow> 'w safeParseAsync) \<Rightarrow> ('w \<times> call list) schema by_type" where
  "spied f = \<lparr> params = zodType (spy Params (f Params)),
               query = zodType (spy Query (f Query)),
               body = zodType (spy Body (f Body)) \<rparr>"

text \<open>
  What the handler can see of a validator set is what each \<open>safeParseAsync\<close> call does.
  The observed run of \<open>validate\<close> is the run of its handler with every validator of
  \<open>validation\<close> wrapped in this way, starting with no call recorded.
\<close>

definition behaviour :: "'w schema by_type \<Rightarrow> DataType \<Rightarrow> 'w safeParseAsync" where
  "behaviour V t = safeParseAsync (sel V t)"

definition observed :: "('w schema \<Rightarrow> 'w schema) \<Rightarrow> descriptor option \<Rightarrow> 'w schema by_type \<Rightarrow>
    request \<Rightarrow> 'w \<Rightarrow> completion \<times> request \<times> 'w \<times> call list" where
  "observed strictObject descriptor schemas req w =
     handler (install descriptor) (spied (behaviour (validation strictObject schemas))) req (w, [])"

fun issues_of :: "thrown + parsed \<Rightarrow> issue list" where
  "issues_of (Inr (Failure parsed_issues)) = parsed_issues"
| "issues_of r = []"

text \<open>The issues of all the structured failures among the calls, in call order.\<close>

definition aggregate :: "call list \<Rightarrow> issue list" where
  "aggregate calls = concat (map (\<lambda>(t, x, r). issues_of r) calls)"

fun returned :: "thrown + parsed \<Rightarrow> bool" where
  "returned (Inr p) = True"
| "returned (Inl e) = False"

text \<open>
  A validator set is deterministic when what a call returns or throws does not depend on
  the world it runs in.
\<close>

definition deterministic :: "'w schema by_type \<Rightarrow> bool" where
  "deterministic V =
     (\<forall>t x w w'. fst (safeParseAsync (sel V t) x w) = fst (safeParseAsync (sel V t) x w'))"

definition all_returned :: "call list \<Rightarrow> bool" where
  "all_returned calls = list_all (\<lambda>c. returned (snd (snd c))) calls"

text \<open>The parts of an observed run.\<close>

definition completion_of :: "completion \<times> request \<times> 'w \<times> call list \<Rightarrow> completion" where
  "completion_of run = fst run"

definition calls_of :: "completion \<times> request \<times> 'w \<times> call list \<Rightarrow> call list" where
  "calls_of run = snd (snd (snd run))"

text \<open>Validators for concrete runs: one that accepts its input as it is, one that accepts
  and gives a fixed output, one that fails with given issues, one that throws.\<close>

definition accepting :: "'w safeParseAsync" where
  "accepting x w = (Inr (Success x), w)"

definition coercing :: "jsval \<Rightarrow> 'w safeParseAsync" where
  "coercing v x w = (Inr (Success v), w)"

definition failing :: "issue list \<Rightarrow> 'w safeParseAsync" where
  "failing parsed_issues x w = (Inr (Failure parsed_issues), w)"

definition throwing :: "thrown \<Rightarrow> 'w safeParseAsync" where
  "throwing e x w = (Inl e, w)"

section \<open>The strict-object constructor of the validation library\<close>

fun shape_fields :: "'w schema \<Rightarrow> (string \<times> 'w schema) list" where
  "shape_fields (SObject ps) = ps"
| "shape_fields s = []"

text \<open>An input has an unknown field when it is an object with a key the shape does not name.\<close>

fun unknown_keys :: "'w schema \<Rightarrow> jsval \<Rightarrow> string list" where
  "unknown_keys shape (JObj fs) =
     filter (\<lambda>k. k \<notin> set (map fst (shape_fields shape))) (map fst fs)"
| "unknown_keys shape x = []"

definition succeeds :: "'w schema \<Rightarrow> jsval \<Rightarrow> 'w \<Rightarrow> bool" where
  "succeeds v x w = (case fst (safeParseAsync v x w) of Inr (Success d) \<Rightarrow> True | _ \<Rightarrow> False)"

text \<open>
  What \<open>validate\<close> relies on from \<open>z.strictObject\<close>: it returns a Zod type, and that
  validator accepts no input that has a field the shape does not name.
\<close>

definition strict_contract :: "('w schema \<Rightarrow> 'w schema) \<Rightarrow> bool" where
  "strict_contract strictObject =
     (\<forall>shape. isZodType (strictObject shape) \<and>
        (\<forall>x w. unknown_keys shape x \<noteq> [] \<longrightarrow> \<not> succeeds (strictObject shape) x w))"

text \<open>
  Modelled from the spec: \<open>z.strictObject\<close> of the validation library, which is not part
  of this repository. The spec: "synthesize a strict-object validator: one that fails if
  the input contains any field not named in the mapping, and otherwise validates each
  named field with its corresponding validator"; a too long title next to an extra field
  gives both issues. The named fields are validated in the order of the shape, a missing
  field as \<open>undefined\<close>, and each issue's path is prefixed with the field's name.
\<close>

fun parse_fields :: "(string \<times> 'w schema) list \<Rightarrow> (string \<times> jsval) list \<Rightarrow> 'w \<Rightarrow>
    (thrown + (string \<times> jsval) list \<times> issue list) \<times> 'w" where
  "parse_fields [] fs w = (Inr ([], []), w)"
| "parse_fields ((k, v) # rest) fs w =
     (case safeParseAsync v (case map_of fs k of None \<Rightarrow> Undefined | Some x \<Rightarrow> x) w of
        (Inl e, w') \<Rightarrow> (Inl e, w')
      | (Inr p, w') \<Rightarrow>
          (case parse_fields rest fs w' of
             (Inl e, w'') \<Rightarrow> (Inl e, w'')
           | (Inr (out, found), w'') \<Rightarrow>
               (case p of
                  Success d \<Rightarrow> (Inr ((k, d) # out, found), w'')
                | Failure parsed_issues \<Rightarrow>
                    (Inr (out, map (\<lambda>i. Issue (code i) (k # path i) (message i)) parsed_issues
                               @ found), w''))))"

definition z_strictObject_parse :: "'w schema \<Rightarrow> 'w safeParseAsync" where
  "z_strictObject_parse shape x w =
     (case x of
        JObj fs \<Rightarrow>
          (case parse_fields (shape_fields shape) fs w of
             (Inl e, w') \<Rightarrow> (Inl e, w')
           | (Inr (out, found), w') \<Rightarrow>
               (let all_issues = found @
                      (if unknown_keys shape x \<noteq> []
                       then [Issue ''unrecognized_keys'' [] (concat (unknown_keys shape x))]
                       else [])
                in if all_issues = [] then (Inr (Success (JObj out)), w')
                   else (Inr (Failure all_issues), w')))
      | _ \<Rightarrow> (Inr (Failure [Issue ''invalid_type'' [] ''expected object'']), w))"

definition z_strictObject :: "'w schema \<Rightarrow> 'w schema" where
  "z_strictObject shape = zodType (z_strictObject_parse shape)"

section \<open>Concrete requests and schema sets\<close>

text \<open>
  A prototype as Express 5 has it: \<open>query\<close> is an accessor with a getter only, which
  derives the value from the URL. The getter here gives the query of \<^verbatim>\<open>/?page=2\<close>.
\<close>

definition derived :: "request \<Rightarrow> jsval" where
  "derived this = JObj [(''page'', JStr ''2'')]"

definition express5 :: "descriptor option" where
  "express5 = Some (Descriptor (Some derived) None)"

definition posted :: request where
  "posted = [''params'' \<mapsto> JObj [(''id'', JStr ''42'')],
             ''body'' \<mapsto> JObj [(''title'', JStr ''toolong'')]]"

definition sparse :: request where
  "sparse = [''params'' \<mapsto> JObj [(''id'', JStr ''42'')], ''body'' \<mapsto> Undefined]"

definition rejected :: "DataType \<Rightarrow> issue" where
  "rejected t = Issue ''custom'' [name t] ''rejected''"

text \<open>\<^verbatim>\<open>validate({})\<close>: every category omitted.\<close>

definition no_schemas :: "unit schema by_type" where
  "no_schemas = \<lparr> params = SUndefined, query = SUndefined, body = SUndefined \<rparr>"

definition query_only :: "unit schema by_type" where
  "query_only = \<lparr> params = SUndefined,
                  query = zodType (coercing (JObj [(''page'', JNum 2)])),
                  body = SUndefined \<rparr>"

definition all_failing :: "unit schema by_type" where
  "all_failing = \<lparr> params = zodType (failing [rejected Params]),
                   query = zodType (failing [rejected Query]),
                   body = zodType (failing [rejected Body]) \<rparr>"

definition empty_failure :: "unit schema by_type" where
  "empty_failure = \<lparr> params = SUndefined, query = zodType (failing []), body = SUndefined \<rparr>"

text \<open>Two raw shapes, \<^verbatim>\<open>{id: z.coerce.number()}\<close> and \<^verbatim>\<open>{title: z.string().max(4)}\<close>
  as they behave on the request \<open>posted\<close>, and a Zod type for the query.\<close>

definition body_failing :: "unit schema by_type" where
  "body_failing =
     \<lparr> params = SObject [(''id'', zodType (coercing (JNum 42)))],
       query = zodType (coercing (JObj [(''page'', JNum 2)])),
       body = SObject [(''title'', zodType (failing [Issue ''too_big'' [] ''too long'']))] \<rparr>"

definition params_throwing :: "unit schema by_type" where
  "params_throwing = \<lparr> params = zodType (throwing (Exception (JStr ''boom''))),
                       query = zodType (failing [rejected Query]),
                       body = SUndefined \<rparr>"

definition shorthand :: "unit schema by_type" where
  "shorthand = \<lparr> params = SObject [(''id'', zodType accepting)],
                  query = SUndefined,
                  body = zodType accepting \<rparr>"

text \<open>Validators that count their calls in the world, a natural number.\<close>

definition counting :: "nat schema by_type" where
  "counting = \<lparr> params = zodType (\<lambda>x w. (Inr (Success (JObj [(''id'', JNum 42)])), Suc w)),
                 query = SUndefined,
                 body = zodType (\<lambda>x w. (Inr (Failure [rejected Body]), Suc w)) \<rparr>"

section \<open>Properties of the loop\<close>

text \<open>
  On the prototype as the module leaves it an assignment to the request never throws, so
  one turn of the loop either ends the run with what the validator threw or goes on with
  the request and the issues settled. The loop changes no own property but those of its
  categories and the shadow slot.
\<close>

lemma js_set_install:
  "js_set (install d) req k v =
     Inr (if req k = None \<and> k = ''query'' \<and> d \<noteq> None then req(''_query'' \<mapsto> v)
          else req(k \<mapsto> v))"
  by (auto simp: js_set_def install_def patched_set_def split: option.splits)

lemma safeParseAsync_zodType [simp]: "safeParseAsync (zodType f) x w = f x w"
  by (simp add: safeParseAsync_def zodType_def)

lemma isZodType_zodType [simp]: "isZodType (zodType f)"
  by (simp add: isZodType_def zodType_def)

lemma sel_spied [simp]: "sel (spied f) t = zodType (spy t (f t))"
  by (cases t) (simp_all add: spied_def)

lemma validation_spied [simp]: "validation so (spied f) = spied f"
  by (simp add: validation_def spied_def)

lemma js_set_commit: "js_set (install d) req (name t) v = Inr (commit d req t v)"
  by (cases t) (simp_all add: js_set_install commit_def)

lemma name_inject [simp]: "(name t = name t') = (t = t')"
  by (cases t; cases t') simp_all

lemma name_not_shadow [simp]: "name t \<noteq> ''_query''" "''_query'' \<noteq> name t"
  by (cases t; simp)+

lemma loop_Cons:
  "loop (install d) V (t # rest) req found w =
     (case safeParseAsync (sel V t) (input d req t) w of
        (Inl e, w') \<Rightarrow> (Some e, req, found, w')
      | (Inr p, w') \<Rightarrow>
          loop (install d) V rest (settle d req t p) (found @ issues_of (Inr p)) w')"
  by (simp add: js_set_commit input_def split: prod.splits sum.splits parsed.splits)

lemma loop_spied_Cons:
  "loop (install d) (spied f) (t # rest) req found (w, log) =
     (case f t (input d req t) w of
        (Inl e, w') \<Rightarrow> (Some e, req, found, (w', log @ [(t, input d req t, Inl e)]))
      | (Inr p, w') \<Rightarrow>
          loop (install d) (spied f) rest (settle d req t p) (found @ issues_of (Inr p))
            (w', log @ [(t, input d req t, Inr p)]))"
  by (simp add: loop_Cons spy_def del: loop.simps split: prod.splits sum.splits)

lemma aggregate_simps [simp]:
  "aggregate [] = []"
  "aggregate (c # cs) = issues_of (snd (snd c)) @ aggregate cs"
  "aggregate (xs @ ys) = aggregate xs @ aggregate ys"
  by (auto simp: aggregate_def split: prod.splits)

lemma settle_frame:
  "k \<noteq> name t \<Longrightarrow> (k = ''_query'' \<longrightarrow> t \<noteq> Query) \<Longrightarrow> settle d req t p k = req k"
  by (cases p) (auto simp: commit_def)

lemma loop_frame:
  "loop (install d) V ts req found w = (r, req', found', w') \<Longrightarrow>
   k \<notin> name ` set ts \<Longrightarrow> (k = ''_query'' \<longrightarrow> Query \<notin> set ts) \<Longrightarrow> req' k = req k"
proof (induction ts arbitrary: req found w)
  case Nil
  then show ?case by simp
next
  case (Cons t ts)
  obtain res w1 where call: "safeParseAsync (sel V t) (input d req t) w = (res, w1)"
    by (cases "safeParseAsync (sel V t) (input d req t) w")
  show ?case
  proof (cases res)
    case (Inl e)
    with Cons.prems call show ?thesis
      by (simp add: loop_Cons del: loop.simps)
  next
    case (Inr p)
    with Cons.prems(1) call have
      "loop (install d) V ts (settle d req t p) (found @ issues_of (Inr p)) w1 =
         (r, req', found', w')"
      by (simp add: loop_Cons del: loop.simps)
    from Cons.IH [OF this] Cons.prems(2,3) have "req' k = settle d req t p k"
      by auto
    moreover have "settle d req t p k = req k"
      using Cons.prems(2,3) by (intro settle_frame) auto
    ultimately show ?thesis by simp
  qed
qed

lemma held_get: "held d req t v \<Longrightarrow> js_get (install d) req (name t) = v"
  by (cases d) (auto simp: held_def js_get_def install_def patched_get_def)

lemma commit_held: "held d (commit d req t v) t v"
  by (cases t) (auto simp: held_def commit_def)

lemma loop_held:
  assumes "loop (install d) V ts req found w = (r, req', found', w')"
    and "held d req t v" and "t \<notin> set ts"
  shows "held d req' t v"
proof -
  have "req' (name t) = req (name t)"
    using assms(3) by (intro loop_frame [OF assms(1)]) auto
  moreover have "t = Query \<Longrightarrow> req' ''_query'' = req ''_query''"
    using assms(3) by (intro loop_frame [OF assms(1)]) auto
  ultimately show ?thesis
    using assms(2) by (auto simp: held_def)
qed

lemma spied_loop_calls:
  "loop (install d) (spied f) ts req found (w, log) = (r, req', found', (w', log')) \<Longrightarrow>
   \<exists>new. log' = log @ new \<and> found' = found @ aggregate new \<and> prefix (map fst new) ts \<and>
     (ts \<noteq> [] \<longrightarrow> new \<noteq> []) \<and>
     (case r of
        None \<Rightarrow> map fst new = ts \<and> all_returned new
      | Some e \<Rightarrow> new \<noteq> [] \<and> snd (snd (last new)) = Inl e \<and>
                   all_returned (butlast new))"
proof (induction ts arbitrary: req found w log)
  case Nil
  then show ?case by (simp add: all_returned_def)
next
  case (Cons t ts)
  obtain res w1 where call: "f t (input d req t) w = (res, w1)"
    by (cases "f t (input d req t) w")
  show ?case
  proof (cases res)
    case (Inl e)
    with Cons.prems call have
      "r = Some e" "log' = log @ [(t, input d req t, Inl e)]" "found' = found"
      by (simp_all add: loop_spied_Cons del: loop.simps) auto
    then show ?thesis
      by (intro exI [where x = "[(t, input d req t, Inl e)]"]) (force simp: all_returned_def)
  next
    case (Inr p)
    with Cons.prems call have
      "loop (install d) (spied f) ts (settle d req t p) (found @ issues_of (Inr p))
          (w1, log @ [(t, input d req t, Inr p)]) = (r, req', found', (w', log'))"
      by (simp add: loop_spied_Cons del: loop.simps)
    from Cons.IH [OF this] obtain new where new:
      "log' = (log @ [(t, input d req t, Inr p)]) @ new"
      "found' = (found @ issues_of (Inr p)) @ aggregate new" "prefix (map fst new) ts"
      "(case r of
          None \<Rightarrow> map fst new = ts \<and> all_returned new
        | Some e \<Rightarrow> new \<noteq> [] \<and> snd (snd (last new)) = Inl e \<and>
                   all_returned (butlast new))"
      by blast
    show ?thesis
      using new
      apply (intro exI [where x = "(t, input d req t, Inr p) # new"])
      by (auto simp: all_returned_def split: option.splits)
  qed
qed

lemma input_settle:
  "t' \<noteq> t \<Longrightarrow> t' \<noteq> Query \<Longrightarrow> input d (settle d req t p) t' = input d req t'"
proof -
  assume "t' \<noteq> t" "t' \<noteq> Query"
  then have "settle d req t p (name t') = req (name t')"
    by (intro settle_frame) auto
  with \<open>t' \<noteq> Query\<close> show ?thesis
    by (cases t') (simp_all add: input_def js_get_def)
qed

lemma spied_loop_requests:
  "loop (install d) (spied f) ts req found (w, log) = (r, req', found', (w', log')) \<Longrightarrow>
   distinct ts \<Longrightarrow> Query \<notin> set (tl ts) \<Longrightarrow>
   \<exists>new. log' = log @ new \<and>
     (\<forall>t x res. (t, x, res) \<in> set new \<longrightarrow>
        t \<in> set ts \<and> x = input d req t \<and>
        (\<forall>v. res = Inr (Success v) \<longrightarrow> held d req' t v) \<and>
        (\<forall>fi. res = Inr (Failure fi) \<longrightarrow>
           req' (name t) = req (name t) \<and> (t = Query \<longrightarrow> req' ''_query'' = req ''_query'')))"
proof (induction ts arbitrary: req found w log)
  case Nil
  then show ?case by simp
next
  case (Cons t ts)
  obtain res w1 where call: "f t (input d req t) w = (res, w1)"
    by (cases "f t (input d req t) w")
  show ?case
  proof (cases res)
    case (Inl e)
    with Cons.prems call have
      "log' = log @ [(t, input d req t, Inl e)]"
      by (simp_all add: loop_spied_Cons del: loop.simps) auto
    then show ?thesis
      by (intro exI [where x = "[(t, input d req t, Inl e)]"]) force
  next
    case (Inr p)
    let ?req1 = "settle d req t p"
    from Inr Cons.prems call have run:
      "loop (install d) (spied f) ts ?req1 (found @ issues_of (Inr p))
          (w1, log @ [(t, input d req t, Inr p)]) = (r, req', found', (w', log'))"
      by (simp add: loop_spied_Cons del: loop.simps)
    have d: "distinct ts" "t \<notin> set ts" "Query \<notin> set ts" "Query \<notin> set (tl ts)"
      using Cons.prems(2,3) by (cases ts; auto)+
    from Cons.IH [OF run d(1) d(4)] obtain new where log': 
      "log' = (log @ [(t, input d req t, Inr p)]) @ new"
      and new: "\<And>t' x res. (t', x, res) \<in> set new \<Longrightarrow>
        t' \<in> set ts \<and> x = input d ?req1 t' \<and>
        (\<forall>v. res = Inr (Success v) \<longrightarrow> held d req' t' v) \<and>
        (\<forall>fi. res = Inr (Failure fi) \<longrightarrow>
           req' (name t') = ?req1 (name t') \<and>
           (t' = Query \<longrightarrow> req' ''_query'' = ?req1 ''_query''))"
      by blast
    have head_ok: "held d req' t v" if "p = Success v" for v
    proof -
      from that have "held d ?req1 t v"
        by (simp add: commit_held)
      from loop_held [OF run this d(2)] show ?thesis .
    qed
    have head_fail: "req' (name t) = req (name t) \<and>
        (t = Query \<longrightarrow> req' ''_query'' = req ''_query'')" if "p = Failure fi" for fi
    proof -
      have "req' (name t) = ?req1 (name t)"
        using d(2) by (intro loop_frame [OF run]) auto
      moreover have "req' ''_query'' = ?req1 ''_query''"
        using d(3) by (intro loop_frame [OF run]) auto
      ultimately show ?thesis using that by simp
    qed
    have rest: "input d ?req1 t' = input d req t' \<and> ?req1 (name t') = req (name t') \<and>
         t' \<noteq> Query" if "t' \<in> set ts" for t'
    proof -
      from that d(2,3) have ne: "t' \<noteq> t" "t' \<noteq> Query"
        by auto
      then have "?req1 (name t') = req (name t')"
        by (intro settle_frame) auto
      with ne show ?thesis
        by (simp add: input_settle)
    qed
    have every: "t' \<in> set (t # ts) \<and> x = input d req t' \<and>
        (\<forall>v. res' = Inr (Success v) \<longrightarrow> held d req' t' v) \<and>
        (\<forall>fi. res' = Inr (Failure fi) \<longrightarrow>
           req' (name t') = req (name t') \<and> (t' = Query \<longrightarrow> req' ''_query'' = req ''_query''))"
      if "(t', x, res') \<in> set ((t, input d req t, Inr p) # new)" for t' x res'
    proof (cases "(t', x, res') = (t, input d req t, Inr p)")
      case True
      then have "t' = t" "x = input d req t" "res' = Inr p"
        by simp_all
      then show ?thesis
        using head_ok head_fail by simp
    next
      case False
      with that have mem: "(t', x, res') \<in> set new"
        by simp blast
      from new [OF mem] have n: "t' \<in> set ts" "x = input d ?req1 t'"
        "\<And>v. res' = Inr (Success v) \<Longrightarrow> held d req' t' v"
        "\<And>fi. res' = Inr (Failure fi) \<Longrightarrow> req' (name t') = ?req1 (name t')"
        by blast+
      from rest [OF n(1)] have r: "input d ?req1 t' = input d req t'"
        "?req1 (name t') = req (name t')" "t' \<noteq> Query"
        by blast+
      have "t' \<in> set (t # ts)"
        using n(1) by simp
      moreover have "x = input d req t'"
        using n(2) r(1) by (rule trans)
      moreover have "req' (name t') = req (name t')" if "res' = Inr (Failure fi)" for fi
        using n(4) [OF that] r(2) by (rule trans)
      ultimately show ?thesis
        using n(3) r(3) by blast
    qed
    have "log' = log @ ((t, input d req t, Inr p) # new)"
      using log' by simp
    with every show ?thesis
      by blast
  qed
qed

lemma spied_handler:
  assumes "handler (install d) (spied f) req (w, []) = (c, req', (w', calls))"
  obtains r found where
    "loop (install d) (spied f) types req [] (w, []) = (r, req', found, (w', calls))"
    "c = (case r of Some e \<Rightarrow> Throw e
          | None \<Rightarrow> if found = [] then Next [] else Throw (ZodError found))"
proof -
  obtain r req1 found w1 calls1 where
    l: "loop (install d) (spied f) types req [] (w, []) = (r, req1, found, (w1, calls1))"
    by (metis surj_pair)
  with assms have "req1 = req'" "w1 = w'" "calls1 = calls"
    "c = (case r of Some e \<Rightarrow> Throw e
          | None \<Rightarrow> if found = [] then Next [] else Throw (ZodError found))"
    by (auto simp: handler_def split: option.splits if_splits)
  with l that show ?thesis by blast
qed

lemma spied_run_calls:
  assumes "handler (install d) (spied f) req (w, []) = (c, req', (w', calls))"
  shows "prefix (map fst calls) [Query, Params, Body]" and "calls \<noteq> []"
    and "all_returned calls \<Longrightarrow>
         map fst calls = [Query, Params, Body] \<and>
         c = (if aggregate calls = [] then Next [] else Throw (ZodError (aggregate calls)))"
    and "\<not> all_returned calls \<Longrightarrow>
         all_returned (butlast calls) \<and>
         (\<exists>e. snd (snd (last calls)) = Inl e \<and> c = Throw e)"
proof -
  from assms obtain r found where
    l: "loop (install d) (spied f) types req [] (w, []) = (r, req', found, (w', calls))"
    and c: "c = (case r of Some e \<Rightarrow> Throw e
          | None \<Rightarrow> if found = [] then Next [] else Throw (ZodError found))"
    by (rule spied_handler)
  from spied_loop_calls [OF l] have
    found: "found = aggregate calls" and p: "prefix (map fst calls) types"
    and ne: "calls \<noteq> []"
    and r: "case r of
        None \<Rightarrow> map fst calls = types \<and> all_returned calls
      | Some e \<Rightarrow> calls \<noteq> [] \<and> snd (snd (last calls)) = Inl e \<and>
                   all_returned (butlast calls)"
    by (auto simp: types_def)
  show "prefix (map fst calls) [Query, Params, Body]"
    using p by (simp add: types_def)
  show "calls \<noteq> []" by (rule ne)
  have last_in: "last calls \<in> set calls"
    using ne by simp
  show "map fst calls = [Query, Params, Body] \<and>
         c = (if aggregate calls = [] then Next [] else Throw (ZodError (aggregate calls)))"
    if all: "all_returned calls"
  proof (cases r)
    case None
    with r c found show ?thesis by (simp add: types_def)
  next
    case (Some e)
    with r have "snd (snd (last calls)) = Inl e" by simp
    moreover from all last_in have "returned (snd (snd (last calls)))"
      by (simp add: all_returned_def list_all_iff)
    ultimately show ?thesis by simp
  qed
  show "all_returned (butlast calls) \<and>
         (\<exists>e. snd (snd (last calls)) = Inl e \<and> c = Throw e)"
    if "\<not> all_returned calls"
  proof (cases r)
    case None
    with r that show ?thesis by simp
  next
    case (Some e)
    with r c show ?thesis by simp
  qed
qed

lemma spied_run_requests:
  assumes "handler (install d) (spied f) req (w, []) = (c, req', (w', calls))"
    and "(t, x, res) \<in> set calls"
  shows "x = input d req t"
    and "res = Inr (Success v) \<Longrightarrow> held d req' t v"
    and "res = Inr (Failure fi) \<Longrightarrow>
           req' (name t) = req (name t) \<and> (t = Query \<longrightarrow> req' ''_query'' = req ''_query'')"
proof -
  from assms(1) obtain r found where
    l: "loop (install d) (spied f) types req [] (w, []) = (r, req', found, (w', calls))"
    by (rule spied_handler)
  have "distinct types" "Query \<notin> set (tl types)"
    by (simp_all add: types_def)
  from spied_loop_requests [OF l this] assms(2) have
    "x = input d req t \<and>
        (\<forall>v. res = Inr (Success v) \<longrightarrow> held d req' t v) \<and>
        (\<forall>fi. res = Inr (Failure fi) \<longrightarrow>
           req' (name t) = req (name t) \<and> (t = Query \<longrightarrow> req' ''_query'' = req ''_query''))"
    by simp
  then show "x = input d req t"
    and "res = Inr (Success v) \<Longrightarrow> held d req' t v"
    and "res = Inr (Failure fi) \<Longrightarrow>
           req' (name t) = req (name t) \<and> (t = Query \<longrightarrow> req' ''_query'' = req ''_query'')"
    by blast+
qed

section \<open>The observed run is the run\<close>

text \<open>
  Wrapping the validators changes nothing but the record of calls: dropping the record
  from the observed run gives what \<open>validate\<close> does on the same request and world.
\<close>

lemma loop_transparent:
  "(case loop (install d) (spied (behaviour V)) ts req found (w, log) of
      (r, req', found', (w', log')) \<Rightarrow> (r, req', found', w')) =
   loop (install d) V ts req found w"
proof (induction ts arbitrary: req found w log)
  case Nil
  show ?case by simp
next
  case (Cons t ts)
  obtain res w1 where call: "safeParseAsync (sel V t) (input d req t) w = (res, w1)"
    by (cases "safeParseAsync (sel V t) (input d req t) w")
  then have spied_call: "behaviour V t (input d req t) w = (res, w1)"
    by (simp add: behaviour_def)
  show ?case
  proof (cases res)
    case (Inl e)
    from loop_Cons [of d V t ts req found w] call Inl
    have "loop (install d) V (t # ts) req found w = (Some e, req, found, w1)"
      by (simp del: loop.simps)
    moreover from loop_spied_Cons [of d "behaviour V" t ts req found w log] spied_call Inl
    have "loop (install d) (spied (behaviour V)) (t # ts) req found (w, log) =
        (Some e, req, found, (w1, log @ [(t, input d req t, Inl e)]))"
      by (simp del: loop.simps)
    ultimately show ?thesis
      by (simp del: loop.simps)
  next
    case (Inr p)
    from loop_Cons [of d V t ts req found w] call Inr
    have "loop (install d) V (t # ts) req found w =
        loop (install d) V ts (settle d req t p) (found @ issues_of (Inr p)) w1"
      by (simp del: loop.simps)
    moreover from loop_spied_Cons [of d "behaviour V" t ts req found w log] spied_call Inr
    have "loop (install d) (spied (behaviour V)) (t # ts) req found (w, log) =
        loop (install d) (spied (behaviour V)) ts (settle d req t p)
          (found @ issues_of (Inr p)) (w1, log @ [(t, input d req t, Inr p)])"
      by (simp del: loop.simps)
    ultimately show ?thesis
      using Cons.IH [of "settle d req t p" "found @ issues_of (Inr p)" w1
          "log @ [(t, input d req t, Inr p)]"]
      by (simp del: loop.simps)
  qed
qed

lemma observed_validate:
  assumes "observed so d S req w = (c, req', (w', calls))"
  shows "validate so d S req w = (c, req', w')"
proof -
  let ?V = "validation so S"
  obtain r q i v l where
    sp: "loop (install d) (spied (behaviour ?V)) types req [] (w, []) = (r, q, i, (v, l))"
    by (metis surj_pair)
  with loop_transparent [of d ?V types req "[]" w "[]"]
  have pl: "loop (install d) ?V types req [] w = (r, q, i, v)"
    by simp
  from assms sp have "(c, req', w') =
      (case r of Some e \<Rightarrow> (Throw e, q, v)
       | None \<Rightarrow> if 0 < length i then (Throw (ZodError i), q, v) else (Next [], q, v))"
    by (auto simp: observed_def handler_def split: option.splits if_splits)
  with pl show ?thesis
    by (auto simp: validate_def handler_def split: option.splits if_splits)
qed

section \<open>Further facts\<close>

lemma js_get_patched:
  "req ''query'' = None \<Longrightarrow>
   js_get (install (Some dsc)) req ''query'' =
     (case req ''_query'' of
        Some v \<Rightarrow> v
      | None \<Rightarrow> (case get_acc dsc of Some g \<Rightarrow> g req | None \<Rightarrow> Undefined))"
  by (simp add: js_get_def install_def patched_get_def split: option.splits)

lemma validate_query_held:
  assumes "safeParseAsync (query (validation so S)) (input d req Query) w = (Inr (Success v), w1)"
    and "validate so d S req w = (c, req', w')"
  shows "held d req' Query v"
proof -
  obtain r req1 found w2 where
    rest: "loop (install d) (validation so S) [Params, Body] (commit d req Query v) [] w1 =
       (r, req1, found, w2)"
    by (metis surj_pair)
  from assms(1) rest have "loop (install d) (validation so S) types req [] w = (r, req1, found, w2)"
    by (simp add: types_def loop_Cons del: loop.simps)
  with assms(2) have "req' = req1"
    by (auto simp: validate_def handler_def split: option.splits if_splits)
  moreover from loop_held [OF rest commit_held] have "held d req1 Query v"
    by simp
  ultimately show ?thesis by simp
qed

lemma aggregate_nonempty_iff:
  "aggregate calls \<noteq> [] \<longleftrightarrow> (\<exists>t x fi. (t, x, Inr (Failure fi)) \<in> set calls \<and> fi \<noteq> [])"
proof (induction calls)
  case Nil
  then show ?case by simp
next
  case (Cons c calls)
  obtain t x res where c: "c = (t, x, res)"
    by (cases c)
  have "issues_of res \<noteq> [] \<longleftrightarrow> (\<exists>fi. res = Inr (Failure fi) \<and> fi \<noteq> [])"
    by (cases res rule: issues_of.cases) simp_all
  with Cons c show ?case
    by auto
qed

lemma aggregate_contains:
  assumes "(t, x, Inr (Failure fi)) \<in> set calls"
  shows "\<exists>before after. aggregate calls = before @ fi @ after"
proof -
  from assms obtain ys zs where "calls = ys @ (t, x, Inr (Failure fi)) # zs"
    by (auto dest: split_list)
  then have "aggregate calls = aggregate ys @ fi @ aggregate zs"
    by simp
  then show ?thesis by blast
qed

lemma all_returned_member:
  "all_returned calls \<Longrightarrow> (t, x, res) \<in> set calls \<Longrightarrow> returned res"
  unfolding all_returned_def list_all_iff by fastforce

lemma all_returned_butlast: "all_returned calls \<Longrightarrow> all_returned (butlast calls)"
  unfolding all_returned_def list_all_iff by (blast dest: in_set_butlastD)

lemma prefix_three:
  "prefix xs [a, b, c] \<Longrightarrow> xs \<noteq> [] \<Longrightarrow> xs = [a] \<or> xs = [a, b] \<or> xs = [a, b, c]"
  by (auto simp: prefix_Cons)

lemma isZodType_iff:
  "isZodType s \<longleftrightarrow> (\<exists>ps f. s = SObject ps \<and> map_of ps ''safeParseAsync'' = Some (SFunction f))"
proof (cases s)
  case (SObject ps)
  show ?thesis
  proof (cases "map_of ps ''safeParseAsync''")
    case None
    with SObject show ?thesis by (simp add: isZodType_def)
  next
    case (Some v)
    with SObject show ?thesis by (cases v) (simp_all add: isZodType_def)
  qed
qed (simp_all add: isZodType_def)

lemma sel_validation:
  "sel (validation so S) t =
     (if isZodType (sel S t) then sel S t else so (orEmpty (sel S t)))"
  by (cases t) (simp_all add: validation_def)

lemma strict_contract_strictObject: "strict_contract z_strictObject"
proof -
  have "\<not> succeeds (z_strictObject shape) x w" if "unknown_keys shape x \<noteq> []"
    for shape :: "'a schema" and x w
  proof (cases x)
    case (JObj fs)
    obtain res w' where p: "parse_fields (shape_fields shape) fs w = (res, w')"
      by (cases "parse_fields (shape_fields shape) fs w")
    show ?thesis
    proof (cases res)
      case (Inl e)
      with p JObj show ?thesis
        by (simp add: succeeds_def z_strictObject_def z_strictObject_parse_def)
    next
      case (Inr r)
      obtain out found where "r = (out, found)"
        by (cases r)
      with Inr p JObj that show ?thesis
        by (simp add: succeeds_def z_strictObject_def z_strictObject_parse_def)
    qed
  qed (use that in simp_all)
  then show ?thesis
    by (simp add: strict_contract_def z_strictObject_def)
qed

lemma loop_deterministic:
  assumes "deterministic V"
  shows "fst (loop (install d) V ts req found w) = fst (loop (install d) V ts req found w') \<and>
         fst (snd (loop (install d) V ts req found w)) =
           fst (snd (loop (install d) V ts req found w')) \<and>
         fst (snd (snd (loop (install d) V ts req found w))) =
           fst (snd (snd (loop (install d) V ts req found w')))"
proof (induction ts arbitrary: req found w w')
  case Nil
  show ?case by simp
next
  case (Cons t ts)
  obtain res w1 where c1: "safeParseAsync (sel V t) (input d req t) w = (res, w1)"
    by (cases "safeParseAsync (sel V t) (input d req t) w")
  obtain res' w1' where c2: "safeParseAsync (sel V t) (input d req t) w' = (res', w1')"
    by (cases "safeParseAsync (sel V t) (input d req t) w'")
  from assms have "fst (safeParseAsync (sel V t) (input d req t) w) =
      fst (safeParseAsync (sel V t) (input d req t) w')"
    unfolding deterministic_def by blast
  with c1 c2 have same: "res' = res"
    by simp
  show ?case
  proof (cases res)
    case (Inl e)
    with c1 c2 same show ?thesis
      by (simp add: loop_Cons del: loop.simps)
  next
    case (Inr p)
    with c1 c2 same Cons.IH [of "settle d req t p" "found @ issues_of (Inr p)" w1 w1']
    show ?thesis
      by (simp add: loop_Cons del: loop.simps)
  qed
qed

lemma deterministic_counting: "deterministic (validation z_strictObject counting)"
proof -
  have "fst (safeParseAsync (sel (validation z_strictObject counting) t) x w) =
        fst (safeParseAsync (sel (validation z_strictObject counting) t) x w')" for t x w w'
    by (cases t; cases x)
      (simp_all add: counting_def validation_def isZodType_def zodType_def z_strictObject_def
        z_strictObject_parse_def safeParseAsync_def)
  then show ?thesis
    unfolding deterministic_def by blast
qed

section \<open>Concrete runs\<close>

lemmas eval_simps = validate_def observed_def behaviour_def handler_def types_def
  validation_def isZodType_def zodType_def spied_def spy_def z_strictObject_def
  z_strictObject_parse_def safeParseAsync_def input_def js_get_def js_set_def install_def
  patched_get_def patched_set_def nullishCoalesce_def accepting_def coercing_def
  failing_def throwing_def completion_of_def calls_of_def

lemma no_schemas_run:
  "observed z_strictObject None no_schemas Map.empty () =
     (Next [], [''query'' \<mapsto> JObj [], ''params'' \<mapsto> JObj [], ''body'' \<mapsto> JObj []],
      ((), [(Query, JObj [], Inr (Success (JObj []))), (Params, JObj [], Inr (Success (JObj []))),
            (Body, JObj [], Inr (Success (JObj [])))]))"
  by (simp add: eval_simps no_schemas_def)

lemma all_failing_run:
  "observed z_strictObject None all_failing Map.empty () =
     (Throw (ZodError [rejected Query, rejected Params, rejected Body]), Map.empty,
      ((), [(Query, JObj [], Inr (Failure [rejected Query])),
            (Params, JObj [], Inr (Failure [rejected Params])),
            (Body, JObj [], Inr (Failure [rejected Body]))]))"
  by (simp add: eval_simps all_failing_def)

lemma body_failing_run:
  "observed z_strictObject express5 body_failing posted () =
     (Throw (ZodError [Issue ''too_big'' [''title''] ''too long'']),
      posted(''_query'' \<mapsto> JObj [(''page'', JNum 2)], ''params'' \<mapsto> JObj [(''id'', JNum 42)]),
      ((), [(Query, JObj [(''page'', JStr ''2'')], Inr (Success (JObj [(''page'', JNum 2)]))),
            (Params, JObj [(''id'', JStr ''42'')], Inr (Success (JObj [(''id'', JNum 42)]))),
            (Body, JObj [(''title'', JStr ''toolong'')],
               Inr (Failure [Issue ''too_big'' [''title''] ''too long'']))]))"
  by (simp add: eval_simps body_failing_def posted_def express5_def derived_def)

lemma sparse_run:
  "observed z_strictObject None shorthand sparse () =
     (Next [],
      sparse(''query'' \<mapsto> JObj [], ''params'' \<mapsto> JObj [(''id'', JStr ''42'')],
             ''body'' \<mapsto> JObj []),
      ((), [(Query, JObj [], Inr (Success (JObj []))),
            (Params, JObj [(''id'', JStr ''42'')], Inr (Success (JObj [(''id'', JStr ''42'')]))),
            (Body, JObj [], Inr (Success (JObj [])))]))"
  by (simp add: eval_simps shorthand_def sparse_def)

lemma params_throwing_run:
  "observed z_strictObject None params_throwing Map.empty () =
     (Throw (Exception (JStr ''boom'')), Map.empty,
      ((), [(Query, JObj [], Inr (Failure [rejected Query])),
            (Params, JObj [], Inl (Exception (JStr ''boom'')))]))"
  by (simp add: eval_simps params_throwing_def)

lemma query_only_run:
  "validate z_strictObject (Some (Descriptor (Some derived) None)) query_only Map.empty () =
     (Next [], [''_query'' \<mapsto> JObj [(''page'', JNum 2)], ''params'' \<mapsto> JObj [],
         ''body'' \<mapsto> JObj []], ())"
  by (simp add: eval_simps query_only_def)

lemma counting_run:
  "validate z_strictObject None counting posted w =
     (Throw (ZodError [rejected Body]),
      posted(''query'' \<mapsto> JObj [], ''params'' \<mapsto> JObj [(''id'', JNum 42)]), Suc (Suc w))"
  by (simp add: eval_simps counting_def posted_def)

section \<open>The claims\<close>

text \<open>
  \<^bold>\<open>C1.\<close> The three categories are validated one after the other in the order of \<open>types\<close>,
  which is query, then params, then body: in every run the categories of the calls, in the
  order in which the calls completed, are a non-empty initial part of that list, and the
  whole list unless a call threw. Each call is recorded when it completes and the next
  validator receives the record, so a call completes before the next one begins. Every
  call but the last one returned: a category is attempted only if no earlier call threw,
  and a call that throws is the last call and ends the run with its exception. The order
  params, query, body does not occur.
\<close>

theorem validation_order:
  assumes "observed so d S req w = (c, req', (w', calls))"
  shows "validate so d S req w = (c, req', w') \<and>
         prefix (map fst calls) [Query, Params, Body] \<and> calls \<noteq> [] \<and>
         (all_returned calls \<longrightarrow> map fst calls = [Query, Params, Body]) \<and>
         all_returned (butlast calls) \<and>
         (\<not> all_returned calls \<longrightarrow> (\<exists>e. snd (snd (last calls)) = Inl e \<and> c = Throw e))"
proof -
  note run = assms [unfolded observed_def]
  have "all_returned (butlast calls)"
    using spied_run_calls(4) [OF run] all_returned_butlast [of calls] by blast
  then show ?thesis
    using observed_validate [OF assms] spied_run_calls [OF run] by blast
qed

theorem validation_order_witness:
  "observed z_strictObject None no_schemas Map.empty () =
     (Next [], [''query'' \<mapsto> JObj [], ''params'' \<mapsto> JObj [], ''body'' \<mapsto> JObj []],
      ((), [(Query, JObj [], Inr (Success (JObj []))), (Params, JObj [], Inr (Success (JObj []))),
            (Body, JObj [], Inr (Success (JObj [])))])) \<and>
   validate z_strictObject None no_schemas Map.empty () =
     (Next [], [''query'' \<mapsto> JObj [], ''params'' \<mapsto> JObj [], ''body'' \<mapsto> JObj []], ()) \<and>
   all_returned [(Query, JObj [], Inr (Success (JObj []))),
      (Params, JObj [], Inr (Success (JObj []))), (Body, JObj [], Inr (Success (JObj [])))] \<and>
   map fst [(Query, JObj [], Inr (Success (JObj []))),
      (Params, JObj [], Inr (Success (JObj []))), (Body, JObj [], Inr (Success (JObj [])))] =
     [Query, Params, Body]"
  using validation_order [OF no_schemas_run] no_schemas_run
  by (simp add: all_returned_def)

theorem validation_order_counterexample:
  "map fst (calls_of (observed z_strictObject None no_schemas Map.empty ())) =
     [Query, Params, Body] \<and>
   map fst (calls_of (observed z_strictObject None no_schemas Map.empty ())) \<noteq>
     [Params, Query, Body]"
  by (simp add: eval_simps no_schemas_def)

text \<open>
  \<^bold>\<open>C2.\<close> When no call throws, all three categories are attempted and the handler decides on
  the aggregate of the issues of all structured failures, in call order: it throws a
  \<open>ZodError\<close> carrying exactly that aggregate when the aggregate is not empty, which is so
  if and only if some category returned a failure with at least one issue; otherwise it
  calls \<open>next\<close> with no arguments. A failure that carries no issue does not make the handler
  throw.
\<close>

theorem aggregated_error:
  assumes "observed so d S req w = (c, req', (w', calls))"
    and "all_returned calls"
  shows "validate so d S req w = (c, req', w') \<and>
         map fst calls = [Query, Params, Body] \<and>
         c = (if aggregate calls = [] then Next [] else Throw (ZodError (aggregate calls))) \<and>
         (aggregate calls \<noteq> [] \<longleftrightarrow>
            (\<exists>t x fi. (t, x, Inr (Failure fi)) \<in> set calls \<and> fi \<noteq> []))"
  using observed_validate [OF assms(1)]
    spied_run_calls(3) [OF assms(1) [unfolded observed_def] assms(2)]
    aggregate_nonempty_iff [of calls]
  by blast

theorem aggregated_error_witness:
  "observed z_strictObject None all_failing Map.empty () =
     (Throw (ZodError [rejected Query, rejected Params, rejected Body]), Map.empty,
      ((), [(Query, JObj [], Inr (Failure [rejected Query])),
            (Params, JObj [], Inr (Failure [rejected Params])),
            (Body, JObj [], Inr (Failure [rejected Body]))])) \<and>
   all_returned [(Query, JObj [], Inr (Failure [rejected Query])),
            (Params, JObj [], Inr (Failure [rejected Params])),
            (Body, JObj [], Inr (Failure [rejected Body]))] \<and>
   validate z_strictObject None all_failing Map.empty () =
     (Throw (ZodError [rejected Query, rejected Params, rejected Body]), Map.empty, ()) \<and>
   aggregate [(Query, JObj [], Inr (Failure [rejected Query])),
            (Params, JObj [], Inr (Failure [rejected Params])),
            (Body, JObj [], Inr (Failure [rejected Body]))] =
     [rejected Query, rejected Params, rejected Body]"
  using aggregated_error [OF all_failing_run] all_failing_run
  by (simp add: all_returned_def)

theorem aggregated_error_counterexample:
  "calls_of (observed z_strictObject None empty_failure Map.empty ()) =
     [(Query, JObj [], Inr (Failure [])), (Params, JObj [], Inr (Success (JObj []))),
      (Body, JObj [], Inr (Success (JObj [])))] \<and>
   completion_of (observed z_strictObject None empty_failure Map.empty ()) = Next [] \<and>
   fst (validate z_strictObject None empty_failure Map.empty ()) = Next []"
  by (simp add: eval_simps empty_failure_def)

text \<open>
  \<^bold>\<open>C3.\<close> Normalization, for every schema set and category. The test \<open>isZodType\<close> holds
  exactly for an object whose \<open>safeParseAsync\<close> is a function, and then the entry is used as
  it is. Otherwise the validator is \<open>strictObject\<close> of the entry, and of the empty mapping
  when the entry is absent. Given that \<open>strictObject\<close> returns a Zod type that accepts no
  input with a field its shape does not name, every one of the three results is a Zod type
  and the synthesized ones accept no such input. \<open>validation\<close> is a total function: there
  is no error case.
\<close>

theorem normalization:
  assumes "strict_contract so"
  shows "(isZodType (sel S t) \<longleftrightarrow>
            (\<exists>ps f. sel S t = SObject ps \<and> map_of ps ''safeParseAsync'' = Some (SFunction f))) \<and>
         (isZodType (sel S t) \<longrightarrow> sel (validation so S) t = sel S t) \<and>
         (\<not> isZodType (sel S t) \<longrightarrow> sel (validation so S) t = so (orEmpty (sel S t))) \<and>
         (sel S t = SUndefined \<longrightarrow> sel (validation so S) t = so (SObject [])) \<and>
         isZodType (sel (validation so S) t) \<and>
         (\<not> isZodType (sel S t) \<and> unknown_keys (orEmpty (sel S t)) x \<noteq> [] \<longrightarrow>
            \<not> succeeds (sel (validation so S) t) x w)"
proof -
  from assms have zod: "isZodType (so shape)"
    and strict: "unknown_keys shape x \<noteq> [] \<Longrightarrow> \<not> succeeds (so shape) x w" for shape
    by (simp_all add: strict_contract_def)
  have "sel S t = SUndefined \<longrightarrow> sel (validation so S) t = so (SObject [])"
    by (simp add: sel_validation isZodType_def)
  moreover have "isZodType (sel (validation so S) t)"
    by (simp add: sel_validation zod)
  moreover have "\<not> isZodType (sel S t) \<and> unknown_keys (orEmpty (sel S t)) x \<noteq> [] \<longrightarrow>
            \<not> succeeds (sel (validation so S) t) x w"
    by (simp add: sel_validation strict)
  moreover have "isZodType (sel S t) \<longrightarrow> sel (validation so S) t = sel S t"
    by (simp add: sel_validation)
  moreover have "\<not> isZodType (sel S t) \<longrightarrow> sel (validation so S) t = so (orEmpty (sel S t))"
    by (simp add: sel_validation)
  ultimately show ?thesis
    using isZodType_iff [of "sel S t"] by blast
qed

theorem normalization_witness:
  "strict_contract (z_strictObject :: unit schema \<Rightarrow> unit schema) \<and>
   isZodType (sel shorthand Body) \<and>
   sel (validation z_strictObject shorthand) Body = zodType accepting \<and>
   \<not> isZodType (sel shorthand Params) \<and>
   sel (validation z_strictObject shorthand) Params =
     z_strictObject (SObject [(''id'', zodType accepting)]) \<and>
   sel shorthand Query = SUndefined \<and>
   sel (validation z_strictObject shorthand) Query = z_strictObject (SObject []) \<and>
   unknown_keys (SObject [] :: unit schema) (JObj [(''foo'', JStr ''bar'')]) = [''foo''] \<and>
   \<not> succeeds (sel (validation z_strictObject shorthand) Query) (JObj [(''foo'', JStr ''bar'')]) ()"
proof -
  have c: "strict_contract (z_strictObject :: unit schema \<Rightarrow> unit schema)"
    by (rule strict_contract_strictObject)
  have b: "isZodType (sel shorthand Body)" "sel shorthand Body = zodType accepting"
    by (simp_all add: shorthand_def)
  have p: "\<not> isZodType (sel shorthand Params)"
    "orEmpty (sel shorthand Params) = SObject [(''id'', zodType accepting)]"
    by (simp_all add: shorthand_def isZodType_def)
  have q: "sel shorthand Query = SUndefined" "\<not> isZodType (sel shorthand Query)"
    "unknown_keys (orEmpty (sel shorthand Query)) (JObj [(''foo'', JStr ''bar'')]) = [''foo'']"
    by (simp_all add: shorthand_def isZodType_def)
  from normalization [OF c, of shorthand Body] b
  have "sel (validation z_strictObject shorthand) Body = zodType accepting"
    by simp
  moreover from normalization [OF c, of shorthand Params] p
  have "sel (validation z_strictObject shorthand) Params =
      z_strictObject (SObject [(''id'', zodType accepting)])"
    by simp
  moreover from normalization [OF c, of shorthand Query "JObj [(''foo'', JStr ''bar'')]" "()"] q
  have "sel (validation z_strictObject shorthand) Query = z_strictObject (SObject [])"
    "\<not> succeeds (sel (validation z_strictObject shorthand) Query) (JObj [(''foo'', JStr ''bar'')]) ()"
    by auto
  moreover have
    "unknown_keys (SObject [] :: unit schema) (JObj [(''foo'', JStr ''bar'')]) = [''foo'']"
    by simp
  ultimately show ?thesis
    using c b(1) p(1) q(1) by blast
qed

text \<open>
  \<^bold>\<open>C4.\<close> When a category's validator returns a structured failure, its issues are part of
  the aggregate, the request's property for that category (and the shadow slot, for the
  query) is left as it was, and the next category is still attempted: after a failure of
  query the params validator is called, after a failure of params the body validator. A
  category is left out only when a call before it threw, and then the run ends with that
  exception; so the categories after a failure are not always all attempted. When no call
  throws, all three categories are attempted and a non-empty aggregate, to which all three
  can contribute, is what the \<open>ZodError\<close> carries.
\<close>

theorem failure_does_not_stop:
  assumes "observed so d S req w = (c, req', (w', calls))"
    and "(t, x, Inr (Failure fi)) \<in> set calls"
  shows "validate so d S req w = (c, req', w') \<and>
         (\<exists>before after. aggregate calls = before @ fi @ after) \<and>
         req' (name t) = req (name t) \<and> (t = Query \<longrightarrow> req' ''_query'' = req ''_query'') \<and>
         (t \<noteq> Body \<longrightarrow> last calls \<noteq> (t, x, Inr (Failure fi))) \<and>
         (t = Query \<longrightarrow> Params \<in> set (map fst calls)) \<and>
         (t = Params \<longrightarrow> Body \<in> set (map fst calls)) \<and>
         (map fst calls \<noteq> [Query, Params, Body] \<longrightarrow>
            (\<exists>e. snd (snd (last calls)) = Inl e \<and> c = Throw e)) \<and>
         (all_returned calls \<longrightarrow>
            map fst calls = [Query, Params, Body] \<and>
            (aggregate calls \<noteq> [] \<longrightarrow> c = Throw (ZodError (aggregate calls))))"
proof -
  note run = assms(1) [unfolded observed_def]
  have notlast: "last calls \<noteq> (t, x, Inr (Failure fi))" if "t \<noteq> Body"
  proof
    assume l: "last calls = (t, x, Inr (Failure fi))"
    show False
    proof (cases "all_returned calls")
      case True
      from spied_run_calls(3) [OF run True] have "map fst calls = [Query, Params, Body]"
        by simp
      then have "last (map fst calls) = Body"
        by simp
      moreover have "last (map fst calls) = fst (last calls)"
        using spied_run_calls(2) [OF run] by (simp add: last_map)
      ultimately show False
        using l that by simp
    next
      case False
      from spied_run_calls(4) [OF run False] l show False
        by auto
    qed
  qed
  have shape: "map fst calls = [Query] \<or> map fst calls = [Query, Params] \<or>
      map fst calls = [Query, Params, Body]"
    using spied_run_calls(1,2) [OF run] by (intro prefix_three) simp_all
  have next_q: "Params \<in> set (map fst calls)" if "t = Query"
  proof (rule ccontr)
    assume "Params \<notin> set (map fst calls)"
    with shape have "map fst calls = [Query]"
      by auto
    then obtain k where "calls = [k]"
      by (cases calls) auto
    with assms(2) have "last calls = (t, x, Inr (Failure fi))"
      by simp
    with notlast that show False
      by simp
  qed
  have next_p: "Body \<in> set (map fst calls)" if "t = Params"
  proof (rule ccontr)
    assume no: "Body \<notin> set (map fst calls)"
    from assms(2) that have "Params \<in> set (map fst calls)"
      by force
    with shape no have "map fst calls = [Query, Params]"
      by auto
    then obtain k l where kl: "calls = [k, l]" "fst k = Query" "fst l = Params"
      by (cases calls; cases "tl calls") auto
    with assms(2) that have "l = (t, x, Inr (Failure fi))"
      by auto
    with kl have "last calls = (t, x, Inr (Failure fi))"
      by simp
    with notlast that show False
      by simp
  qed
  have stopped: "\<exists>e. snd (snd (last calls)) = Inl e \<and> c = Throw e"
    if "map fst calls \<noteq> [Query, Params, Body]"
  proof -
    from that spied_run_calls(3) [OF run] have "\<not> all_returned calls"
      by blast
    from spied_run_calls(4) [OF run this] show ?thesis
      by blast
  qed
  have full: "all_returned calls \<longrightarrow>
            map fst calls = [Query, Params, Body] \<and>
            (aggregate calls \<noteq> [] \<longrightarrow> c = Throw (ZodError (aggregate calls)))"
    using spied_run_calls(3) [OF run] by simp
  from notlast next_q next_p stopped full show ?thesis
    using aggregate_contains [OF assms(2)] spied_run_requests(3) [OF run assms(2) refl]
      observed_validate [OF assms(1)]
    by blast
qed

theorem failure_does_not_stop_witness:
  "observed z_strictObject None all_failing Map.empty () =
     (Throw (ZodError [rejected Query, rejected Params, rejected Body]), Map.empty,
      ((), [(Query, JObj [], Inr (Failure [rejected Query])),
            (Params, JObj [], Inr (Failure [rejected Params])),
            (Body, JObj [], Inr (Failure [rejected Body]))])) \<and>
   (Query, JObj [], Inr (Failure [rejected Query])) \<in>
     set [(Query, JObj [], Inr (Failure [rejected Query])),
            (Params, JObj [], Inr (Failure [rejected Params])),
            (Body, JObj [], Inr (Failure [rejected Body]))] \<and>
   aggregate [(Query, JObj [], Inr (Failure [rejected Query])),
            (Params, JObj [], Inr (Failure [rejected Params])),
            (Body, JObj [], Inr (Failure [rejected Body]))] =
     [] @ [rejected Query] @ [rejected Params, rejected Body] \<and>
   validate z_strictObject None all_failing Map.empty () =
     (Throw (ZodError [rejected Query, rejected Params, rejected Body]), Map.empty, ())"
  using failure_does_not_stop [OF all_failing_run, of Query "JObj []" "[rejected Query]"]
    all_failing_run
  by (simp add: all_returned_def)

theorem failure_does_not_stop_counterexample:
  "calls_of (observed z_strictObject None params_throwing Map.empty ()) =
     [(Query, JObj [], Inr (Failure [rejected Query])),
      (Params, JObj [], Inl (Exception (JStr ''boom'')))] \<and>
   Body \<notin> set (map fst (calls_of (observed z_strictObject None params_throwing Map.empty ()))) \<and>
   fst (validate z_strictObject None params_throwing Map.empty ()) =
     Throw (Exception (JStr ''boom''))"
  by (simp add: eval_simps params_throwing_def)

text \<open>
  \<^bold>\<open>C5.\<close> Whatever the run ends with, in particular with the \<open>ZodError\<close> of a failing sibling
  category, reading the property of a category whose validator succeeded gives, on the
  request as the handler leaves it, the validator's output.
\<close>

theorem successful_fields_stay:
  assumes "observed so d S req w = (c, req', (w', calls))"
    and "(t, x, Inr (Success v)) \<in> set calls"
  shows "validate so d S req w = (c, req', w') \<and> js_get (install d) req' (name t) = v"
  using observed_validate [OF assms(1)]
    held_get [OF spied_run_requests(2) [OF assms(1) [unfolded observed_def] assms(2) refl]]
  by blast

theorem successful_fields_stay_witness:
  "observed z_strictObject express5 body_failing posted () =
     (Throw (ZodError [Issue ''too_big'' [''title''] ''too long'']),
      posted(''_query'' \<mapsto> JObj [(''page'', JNum 2)], ''params'' \<mapsto> JObj [(''id'', JNum 42)]),
      ((), [(Query, JObj [(''page'', JStr ''2'')], Inr (Success (JObj [(''page'', JNum 2)]))),
            (Params, JObj [(''id'', JStr ''42'')], Inr (Success (JObj [(''id'', JNum 42)]))),
            (Body, JObj [(''title'', JStr ''toolong'')],
               Inr (Failure [Issue ''too_big'' [''title''] ''too long'']))])) \<and>
   validate z_strictObject express5 body_failing posted () =
     (Throw (ZodError [Issue ''too_big'' [''title''] ''too long'']),
      posted(''_query'' \<mapsto> JObj [(''page'', JNum 2)], ''params'' \<mapsto> JObj [(''id'', JNum 42)]),
      ()) \<and>
   js_get (install express5)
     (posted(''_query'' \<mapsto> JObj [(''page'', JNum 2)], ''params'' \<mapsto> JObj [(''id'', JNum 42)]))
     ''params'' = JObj [(''id'', JNum 42)] \<and>
   js_get (install express5)
     (posted(''_query'' \<mapsto> JObj [(''page'', JNum 2)], ''params'' \<mapsto> JObj [(''id'', JNum 42)]))
     ''query'' = JObj [(''page'', JNum 2)]"
  using successful_fields_stay [OF body_failing_run, of Params "JObj [(''id'', JStr ''42'')]"
      "JObj [(''id'', JNum 42)]"]
    successful_fields_stay [OF body_failing_run, of Query "JObj [(''page'', JStr ''2'')]"
      "JObj [(''page'', JNum 2)]"]
    body_failing_run
  by simp

text \<open>
  \<^bold>\<open>C6.\<close> The value passed to a category's validator is the value read from the request
  for that category when it is neither \<open>undefined\<close> nor \<open>null\<close>, and the empty object when
  the property is absent, \<open>undefined\<close> or \<open>null\<close>. Neither \<open>undefined\<close> nor \<open>null\<close> is ever
  passed. (A property that is \<open>null\<close> is not passed on as it is.)
\<close>

theorem validator_input:
  assumes "observed so d S req w = (c, req', (w', calls))"
    and "(t, x, res) \<in> set calls"
  shows "x = (if js_get (install d) req (name t) = Undefined \<or>
                js_get (install d) req (name t) = Null
              then JObj [] else js_get (install d) req (name t)) \<and>
         x \<noteq> Undefined \<and> x \<noteq> Null"
  using spied_run_requests(1) [OF assms(1) [unfolded observed_def] assms(2)]
  by (simp add: input_def nullishCoalesce_def)

theorem validator_input_witness:
  "observed z_strictObject None shorthand sparse () =
     (Next [],
      sparse(''query'' \<mapsto> JObj [], ''params'' \<mapsto> JObj [(''id'', JStr ''42'')],
             ''body'' \<mapsto> JObj []),
      ((), [(Query, JObj [], Inr (Success (JObj []))),
            (Params, JObj [(''id'', JStr ''42'')], Inr (Success (JObj [(''id'', JStr ''42'')]))),
            (Body, JObj [], Inr (Success (JObj [])))])) \<and>
   js_get (install None) sparse ''query'' = Undefined \<and>
   js_get (install None) sparse ''params'' = JObj [(''id'', JStr ''42'')] \<and>
   js_get (install None) sparse ''body'' = Undefined"
  using validator_input [OF sparse_run, of Body "JObj []" "Inr (Success (JObj []))"]
    validator_input [OF sparse_run, of Params "JObj [(''id'', JStr ''42'')]"
      "Inr (Success (JObj [(''id'', JStr ''42'')]))"]
    sparse_run
  by (simp add: js_get_def install_def sparse_def)

theorem validator_input_counterexample:
  "[''body'' \<mapsto> Null] ''body'' = Some Null \<and>
   js_get (install None) [''body'' \<mapsto> Null] ''body'' = Null \<and>
   calls_of (observed z_strictObject None no_schemas [''body'' \<mapsto> Null] ()) =
     [(Query, JObj [], Inr (Success (JObj []))), (Params, JObj [], Inr (Success (JObj []))),
      (Body, JObj [], Inr (Success (JObj [])))]"
  by (simp add: eval_simps no_schemas_def)

text \<open>
  \<^bold>\<open>C7.\<close> With the patch installed, on a request that has no own property \<open>query\<close>: reading
  \<open>query\<close> gives the shadow slot when the request has one and the result of the original
  getter otherwise; assigning to \<open>query\<close> writes the shadow slot. Hence, once the handler's
  query validator has succeeded, reading \<open>query\<close> on the request as the handler leaves it
  gives the validator's output, and a request with no shadow slot still reads through the
  original getter.
\<close>

theorem query_patch:
  assumes "req ''query'' = None"
  shows "js_get (install (Some dsc)) req ''query'' =
           (case req ''_query'' of
              Some v \<Rightarrow> v
            | None \<Rightarrow> (case get_acc dsc of Some g \<Rightarrow> g req | None \<Rightarrow> Undefined)) \<and>
         js_set (install (Some dsc)) req ''query'' u = Inr (req(''_query'' \<mapsto> u)) \<and>
         (safeParseAsync (query (validation so S)) (input (Some dsc) req Query) w =
              (Inr (Success v), w1) \<and>
            validate so (Some dsc) S req w = (c, req', w') \<longrightarrow>
          js_get (install (Some dsc)) req' ''query'' = v) \<and>
         (other ''query'' = None \<and> other ''_query'' = None \<longrightarrow>
          js_get (install (Some dsc)) other ''query'' =
            (case get_acc dsc of Some g \<Rightarrow> g other | None \<Rightarrow> Undefined))"
proof (intro conjI impI)
  show "js_get (install (Some dsc)) req ''query'' =
           (case req ''_query'' of
              Some v \<Rightarrow> v
            | None \<Rightarrow> (case get_acc dsc of Some g \<Rightarrow> g req | None \<Rightarrow> Undefined))"
    using assms by (rule js_get_patched)
  show "js_set (install (Some dsc)) req ''query'' u = Inr (req(''_query'' \<mapsto> u))"
    using assms by (simp add: js_set_install)
  show "js_get (install (Some dsc)) req' ''query'' = v"
    if "safeParseAsync (query (validation so S)) (input (Some dsc) req Query) w =
              (Inr (Success v), w1) \<and>
            validate so (Some dsc) S req w = (c, req', w')"
    using held_get [OF validate_query_held [of so S "Some dsc" req w v w1 c req' w']] that
    by simp
  show "js_get (install (Some dsc)) other ''query'' =
            (case get_acc dsc of Some g \<Rightarrow> g other | None \<Rightarrow> Undefined)"
    if "other ''query'' = None \<and> other ''_query'' = None"
    using that by (simp add: js_get_patched)
qed

theorem query_patch_witness:
  "(Map.empty :: request) ''query'' = None \<and>
   js_get (install (Some (Descriptor (Some derived) None))) Map.empty ''query'' =
     JObj [(''page'', JStr ''2'')] \<and>
   js_set (install (Some (Descriptor (Some derived) None))) Map.empty ''query'' (JNum 7) =
     Inr [''_query'' \<mapsto> JNum 7] \<and>
   safeParseAsync (query (validation z_strictObject query_only))
     (input (Some (Descriptor (Some derived) None)) Map.empty Query) () =
     (Inr (Success (JObj [(''page'', JNum 2)])), ()) \<and>
   validate z_strictObject (Some (Descriptor (Some derived) None)) query_only Map.empty () =
     (Next [], [''_query'' \<mapsto> JObj [(''page'', JNum 2)], ''params'' \<mapsto> JObj [],
         ''body'' \<mapsto> JObj []], ()) \<and>
   js_get (install (Some (Descriptor (Some derived) None)))
     [''_query'' \<mapsto> JObj [(''page'', JNum 2)], ''params'' \<mapsto> JObj [], ''body'' \<mapsto> JObj []]
     ''query'' = JObj [(''page'', JNum 2)] \<and>
   js_get (install (Some (Descriptor (Some derived) None))) [''url'' \<mapsto> JStr ''/?page=2'']
     ''query'' = JObj [(''page'', JStr ''2'')]"
  using query_patch [of Map.empty "Descriptor (Some derived) None" "JNum 7" z_strictObject
      query_only "()" "JObj [(''page'', JNum 2)]" "()" "Next []"
      "[''_query'' \<mapsto> JObj [(''page'', JNum 2)], ''params'' \<mapsto> JObj [], ''body'' \<mapsto> JObj []]"
      "()" "[''url'' \<mapsto> JStr ''/?page=2'']"]
    query_only_run
  by (simp add: eval_simps derived_def query_only_def)

text \<open>
  \<^bold>\<open>C8.\<close> When a call of a validator throws, that call is the last one of the run and the
  handler ends by throwing the same exception: it does not throw a \<open>ZodError\<close> of the
  issues collected so far, and it does not call \<open>next\<close>.
\<close>

theorem exception_propagates:
  assumes "observed so d S req w = (c, req', (w', calls))"
    and "(t, x, Inl e) \<in> set calls"
  shows "validate so d S req w = (Throw e, req', w') \<and> c = Throw e \<and>
         last calls = (t, x, Inl e)"
proof -
  note run = assms(1) [unfolded observed_def]
  have not_all: "\<not> all_returned calls"
  proof
    assume "all_returned calls"
    from all_returned_member [OF this assms(2)] show False
      by simp
  qed
  from spied_run_calls(4) [OF run not_all] obtain e' where
    front: "all_returned (butlast calls)" and l: "snd (snd (last calls)) = Inl e'"
    and c: "c = Throw e'"
    by blast
  obtain ys y where calls: "calls = ys @ [y]"
    using assms(2) by (cases calls rule: rev_cases) auto
  have "(t, x, Inl e) \<notin> set ys"
  proof
    assume mem: "(t, x, Inl e) \<in> set ys"
    from front calls have "all_returned ys"
      by simp
    from all_returned_member [OF this mem] show False
      by simp
  qed
  with assms(2) calls have "y = (t, x, Inl e)"
    by simp
  with l c calls observed_validate [OF assms(1)] show ?thesis by simp
qed

theorem exception_propagates_witness:
  "observed z_strictObject None params_throwing Map.empty () =
     (Throw (Exception (JStr ''boom'')), Map.empty,
      ((), [(Query, JObj [], Inr (Failure [rejected Query])),
            (Params, JObj [], Inl (Exception (JStr ''boom'')))])) \<and>
   (Params, JObj [], Inl (Exception (JStr ''boom''))) \<in>
     set [(Query, JObj [], Inr (Failure [rejected Query])),
          (Params, JObj [], Inl (Exception (JStr ''boom'')))] \<and>
   validate z_strictObject None params_throwing Map.empty () =
     (Throw (Exception (JStr ''boom'')), Map.empty, ())"
  using exception_propagates [OF params_throwing_run, of Params "JObj []"
      "Exception (JStr ''boom'')"]
    params_throwing_run
  by simp

text \<open>
  \<^bold>\<open>C9.\<close> With validators whose results do not depend on the world, two calls of the same
  handler on equal requests end in the same way and leave equal requests, whatever the
  world of each call is, in particular when the second call runs in the world the first
  one left.
\<close>

theorem idempotence:
  assumes "deterministic (validation so S)"
    and "validate so d S req w = (c1, req1, w1)"
    and "validate so d S req w' = (c2, req2, w2)"
  shows "c1 = c2 \<and> req1 = req2"
proof -
  let ?l = "loop (install d) (validation so S) types req []"
  obtain r q i v where l1: "?l w = (r, q, i, v)"
    by (metis surj_pair)
  obtain r' q' i' v' where l2: "?l w' = (r', q', i', v')"
    by (metis surj_pair)
  from loop_deterministic [OF assms(1), of d types req "[]" w w'] l1 l2
  have "r' = r" "q' = q" "i' = i"
    by simp_all
  with l1 l2 assms(2,3) show ?thesis
    by (auto simp: validate_def handler_def split: option.splits if_splits)
qed

theorem idempotence_witness:
  "deterministic (validation z_strictObject counting) \<and>
   validate z_strictObject None counting posted 0 =
     (Throw (ZodError [rejected Body]),
      posted(''query'' \<mapsto> JObj [], ''params'' \<mapsto> JObj [(''id'', JNum 42)]), 2) \<and>
   validate z_strictObject None counting posted 2 =
     (Throw (ZodError [rejected Body]),
      posted(''query'' \<mapsto> JObj [], ''params'' \<mapsto> JObj [(''id'', JNum 42)]), 4)"
  using idempotence [OF deterministic_counting counting_run [of 0] counting_run [of 2]]
    deterministic_counting counting_run [of 0] counting_run [of 2]
  by (simp add: numeral_eq_Suc)

text \<open>
  \<^bold>\<open>C10.\<close> On a request with no own property \<open>query\<close>, assigning any value to \<open>query\<close>, also
  \<open>undefined\<close>, stores it in the shadow slot, and every later read of \<open>query\<close>, as long as
  the slot holds the value, gives exactly that value: the original getter is consulted
  only when the request has no shadow slot, whatever value the slot holds.
\<close>

theorem shadow_slot_presence:
  assumes "req ''query'' = None"
  shows "js_set (install (Some dsc)) req ''query'' v = Inr (req(''_query'' \<mapsto> v)) \<and>
         js_get (install (Some dsc)) (req(''_query'' \<mapsto> v)) ''query'' = v \<and>
         (\<forall>later. later ''query'' = None \<and> later ''_query'' = Some v \<longrightarrow>
            js_get (install (Some dsc)) later ''query'' = v)"
  using assms by (simp add: js_set_install js_get_patched)

theorem shadow_slot_presence_witness:
  "(Map.empty :: request) ''query'' = None \<and>
   js_set (install (Some (Descriptor (Some derived) None))) Map.empty ''query'' Undefined =
     Inr [''_query'' \<mapsto> Undefined] \<and>
   js_get (install (Some (Descriptor (Some derived) None))) [''_query'' \<mapsto> Undefined] ''query'' =
     Undefined \<and>
   derived [''_query'' \<mapsto> Undefined] \<noteq> Undefined"
  using shadow_slot_presence [of Map.empty "Descriptor (Some derived) None" Undefined]
  by (simp add: derived_def)

end
